theory Spec2Isabelle
  imports
    Complex_Main
    "HOL-Library.Char_ord"
    "HOL-Library.List_Lexorder"
    "HOL-Library.Product_Lexorder"
    "HOL-Library.Multiset"
    "HOL-Library.Log_Nat"
begin

section \<open>Data model\<close>

text \<open>
  The \<^verbatim>\<open>Memo\<close> interface of ExportPreview.tsx and App.tsx. Timestamps are strings and
  are compared as strings by the code (\<^verbatim>\<open>aValue < bValue\<close>): JavaScript compares
  strings lexicographically by code unit, which on \<open>string\<close> is the lexicographic order
  of \<open>List_Lexorder\<close> over the character codes of \<open>Char_ord\<close>.
\<close>

record memo =
  slug :: string
  content :: string
  created_at :: string
  updated_at :: string
  tags :: "string list"
  url :: "string option"

datatype OrderBy = created_at_key | updated_at_key

datatype OrderDir = asc | desc

text \<open>\<^verbatim>\<open>a[orderBy]\<close>: the field of a memo selected by the order key.\<close>

fun memo_field :: "OrderBy \<Rightarrow> memo \<Rightarrow> string" where
  "memo_field created_at_key m = created_at m"
| "memo_field updated_at_key m = updated_at m"

text \<open>
  A JavaScript number as the export dialog can hold it in \<^verbatim>\<open>limit\<close>: the result of
  \<^verbatim>\<open>parseInt\<close> (an integer, or NaN when the text has no leading digits) or the initial
  \<^verbatim>\<open>memos.length\<close>.
\<close>

datatype js_num = Num int | NaN

section \<open>ExportPreview: sorting and limiting\<close>

text \<open>
  The comparator handed to \<^verbatim>\<open>sort\<close> in \<^verbatim>\<open>getProcessedMemos\<close>. It looks at the
  chosen field only and answers 0 when the two fields are equal.
\<close>

definition compareMemos :: "OrderBy \<Rightarrow> OrderDir \<Rightarrow> memo \<Rightarrow> memo \<Rightarrow> int" where
  "compareMemos orderBy orderDir a b =
     (let aValue = memo_field orderBy a; bValue = memo_field orderBy b
      in if orderDir = asc
         then (if aValue < bValue then - 1 else if aValue > bValue then 1 else 0)
         else (if aValue > bValue then - 1 else if aValue < bValue then 1 else 0))"

text \<open>
  \<^verbatim>\<open>Array.prototype.sort(compare)\<close>. ECMAScript (2019 and later) requires the sort to
  be stable; for a consistent comparator the result is then unique, so it is modelled by
  stable insertion: an element is put in front of the first element it does not compare
  greater than, and elements are inserted from the right, so that an earlier element
  stays in front of a later one that compares equal.
\<close>

fun insort_by :: "('a \<Rightarrow> 'a \<Rightarrow> int) \<Rightarrow> 'a \<Rightarrow> 'a list \<Rightarrow> 'a list" where
  "insort_by cmp x [] = [x]"
| "insort_by cmp x (y # ys) =
     (if cmp x y \<le> 0 then x # y # ys else y # insort_by cmp x ys)"

definition array_sort :: "('a \<Rightarrow> 'a \<Rightarrow> int) \<Rightarrow> 'a list \<Rightarrow> 'a list" where
  "array_sort cmp xs = foldr (insort_by cmp) xs []"

text \<open>\<^verbatim>\<open>Math.min\<close> on two numbers: NaN as soon as one argument is NaN.\<close>

fun math_min :: "js_num \<Rightarrow> js_num \<Rightarrow> js_num" where
  "math_min (Num a) (Num b) = Num (min a b)"
| "math_min _ _ = NaN"

text \<open>
  \<^verbatim>\<open>xs.slice(0, end)\<close>: the end index is NaN (taken as 0), negative (counted from
  the end of the array, not below 0) or non-negative (not beyond the length).
\<close>

definition array_slice0 :: "'a list \<Rightarrow> js_num \<Rightarrow> 'a list" where
  "array_slice0 xs endIdx =
     (let len = int (length xs);
          relativeEnd = (case endIdx of NaN \<Rightarrow> 0 | Num e \<Rightarrow> e);
          final = (if relativeEnd < 0 then max (len + relativeEnd) 0 else min relativeEnd len)
      in take (nat final) xs)"

text \<open>
  \<^verbatim>\<open>getProcessedMemos\<close>. The state \<^verbatim>\<open>limit\<close> has type \<^verbatim>\<open>number | ""\<close>: \<open>None\<close> is the
  cleared field (\<^verbatim>\<open>""\<close>), for which \<^verbatim>\<open>typeof limit === "number"\<close> is false.
\<close>

definition getProcessedMemos ::
  "memo list \<Rightarrow> OrderBy \<Rightarrow> OrderDir \<Rightarrow> js_num option \<Rightarrow> memo list" where
  "getProcessedMemos memos orderBy orderDir limit =
     (let sorted = array_sort (compareMemos orderBy orderDir) memos;
          limitNum = (case limit of Some n \<Rightarrow> n | None \<Rightarrow> Num (int (length sorted)))
      in array_slice0 sorted (math_min limitNum (Num (int (length sorted)))))"

text \<open>
  The \<^verbatim>\<open>onChange\<close> handler of the limit input: the value it stores in \<^verbatim>\<open>limit\<close>. A number
  input reports text that is not a number as the empty string. \<^verbatim>\<open>parseInt\<close> is the
  language's own and enters as a parameter.
\<close>

definition limit_onChange :: "(string \<Rightarrow> js_num) \<Rightarrow> string \<Rightarrow> js_num option" where
  "limit_onChange parseInt v = (if v = [] then None else Some (parseInt v))"

text \<open>The order on field values that a direction asks for.\<close>

fun dir_le :: "OrderDir \<Rightarrow> string \<Rightarrow> string \<Rightarrow> bool" where
  "dir_le asc a b = (a \<le> b)"
| "dir_le desc a b = (b \<le> a)"

text \<open>Two memos with the same creation time, used in the examples below.\<close>

definition memo_a :: memo where
  "memo_a = \<lparr>slug = ''a'', content = ''first'', created_at = ''2024-01-01 10:00:00'',
     updated_at = ''2024-01-03 09:00:00'', tags = [], url = None\<rparr>"

definition memo_b :: memo where
  "memo_b = \<lparr>slug = ''b'', content = ''second'', created_at = ''2024-01-01 10:00:00'',
     updated_at = ''2024-01-02 09:00:00'', tags = [''project''], url = None\<rparr>"

text \<open>A third memo, created later.\<close>

definition memo_c :: memo where
  "memo_c = \<lparr>slug = ''c'', content = ''third'', created_at = ''2024-01-02 08:30:00'',
     updated_at = ''2024-01-02 08:30:00'', tags = [],
     url = Some ''https://flomoapp.com/mine/?memo_id=c''\<rparr>"

subsection \<open>ExportPreview: the request sent to the formatter\<close>

datatype ExportFormat = fmt_json | fmt_markdown | fmt_table

datatype UrlMode = url_full | url_id | url_none

text \<open>
  \<^verbatim>\<open>DateFormatOption\<close>, the eight choices of the date format menu; \<open>df_cn\<close> is the Chinese
  preset, whose three Chinese characters are written as their UTF-8 bytes below.
\<close>

datatype DateFormatOption =
  df_ymd_hm | df_ymd | df_mdy_hm | df_dmy_hm | df_cn | df_mon_d_y | df_none | df_custom

fun date_format_text :: "DateFormatOption \<Rightarrow> string" where
  "date_format_text df_ymd_hm = ''yyyy-MM-dd HH:mm''"
| "date_format_text df_ymd = ''yyyy-MM-dd''"
| "date_format_text df_mdy_hm = ''MM/dd/yyyy HH:mm''"
| "date_format_text df_dmy_hm = ''dd/MM/yyyy HH:mm''"
| "date_format_text df_cn =
     ''yyyy'' @ [CHR 0xE5, CHR 0xB9, CHR 0xB4] @ ''MM'' @ [CHR 0xE6, CHR 0x9C, CHR 0x88]
       @ ''dd'' @ [CHR 0xE6, CHR 0x97, CHR 0xA5] @ '' HH:mm''"
| "date_format_text df_mon_d_y = ''MMM dd, yyyy''"
| "date_format_text df_none = ''none''"
| "date_format_text df_custom = ''custom''"

text \<open>The state of the ExportPreview component (its \<^verbatim>\<open>useState\<close> cells).\<close>

record export_preview =
  selectedFormat :: ExportFormat
  dateFormat :: DateFormatOption
  customDateFormat :: string
  minimalMode :: bool
  compactJson :: bool
  urlMode :: UrlMode
  orderBy :: OrderBy
  orderDir :: OrderDir
  limit :: "js_num option"
  preview :: string
  isExporting :: bool
  error :: "string option"

text \<open>\<^verbatim>\<open>getDateFormatString\<close>.\<close>

definition getDateFormatString :: "export_preview \<Rightarrow> string" where
  "getDateFormatString s =
     (if dateFormat s = df_none then []
      else if dateFormat s = df_custom then customDateFormat s
      else date_format_text (dateFormat s))"

text \<open>
  The three \<^verbatim>\<open>invoke\<close> calls of \<^verbatim>\<open>generatePreview\<close>, each with the arguments the
  code passes, in the order of the \<^verbatim>\<open>args\<close> object.
\<close>

datatype export_command =
  format_memos_json_with_options "memo list" bool string
| format_memos_markdown_with_options "memo list" UrlMode string bool
| format_memos_table_with_options "memo list" string

text \<open>
  The formatter commands themselves (\<^verbatim>\<open>format_memos_*_with_options\<close>) are part of the Rust
  backend and not among the sources here. They enter as a parameter: what the backend
  answers to a command with its arguments, the text or the error the \<^verbatim>\<open>invoke\<close> promise is
  rejected with (\<open>Inl\<close>).
\<close>

type_synonym format_export = "export_command \<Rightarrow> string + string"

text \<open>The \<^verbatim>\<open>switch (selectedFormat)\<close> of \<^verbatim>\<open>generatePreview\<close>: the command it sends.\<close>

definition export_request :: "memo list \<Rightarrow> export_preview \<Rightarrow> export_command" where
  "export_request memos s =
     (let processedMemos = getProcessedMemos memos (orderBy s) (orderDir s) (limit s);
          formatString = getDateFormatString s
      in case selectedFormat s of
           fmt_json \<Rightarrow> format_memos_json_with_options processedMemos (compactJson s) formatString
         | fmt_markdown \<Rightarrow>
             format_memos_markdown_with_options processedMemos (urlMode s) formatString (minimalMode s)
         | fmt_table \<Rightarrow> format_memos_table_with_options processedMemos formatString)"

text \<open>
  \<^verbatim>\<open>generatePreview\<close> runs in an effect and is asynchronous: it sends the command above and
  returns; when the reply arrives, \<^verbatim>\<open>setPreview\<close> stores it, and a rejected call is caught
  and replaced by a fixed message. This is the second half, run on arrival of a reply.
  Nothing in it looks at which request the reply answers.
\<close>

definition reply_text :: "string + string \<Rightarrow> string" where
  "reply_text reply =
     (case reply of Inr rendered \<Rightarrow> rendered | Inl err \<Rightarrow> ''Failed to generate preview'')"

definition generatePreview_reply :: "string + string \<Rightarrow> export_preview \<Rightarrow> export_preview" where
  "generatePreview_reply reply s = s\<lparr>preview := reply_text reply\<rparr>"

text \<open>The state of the component when it is mounted with the prop \<^verbatim>\<open>memos\<close>.\<close>

definition initial_export_preview :: "memo list \<Rightarrow> export_preview" where
  "initial_export_preview memos =
     \<lparr>selectedFormat = fmt_markdown, dateFormat = df_ymd_hm,
      customDateFormat = ''yyyy-MM-dd HH:mm:ss'', minimalMode = False, compactJson = False,
      urlMode = url_full, orderBy = created_at_key, orderDir = desc,
      limit = Some (Num (int (length memos))), preview = [], isExporting = False, error = None\<rparr>"

text \<open>The \<^verbatim>\<open>onChange\<close> handlers of the option controls, each a state setter.\<close>

datatype setting_change =
  setSelectedFormat ExportFormat
| setDateFormat DateFormatOption
| setCustomDateFormat string
| setMinimalMode bool
| setCompactJson bool
| setUrlMode UrlMode
| setOrderBy OrderBy
| setOrderDir OrderDir
| setLimit "js_num option"

fun apply_change :: "setting_change \<Rightarrow> export_preview \<Rightarrow> export_preview" where
  "apply_change (setSelectedFormat x) s = s\<lparr>selectedFormat := x\<rparr>"
| "apply_change (setDateFormat x) s = s\<lparr>dateFormat := x\<rparr>"
| "apply_change (setCustomDateFormat x) s = s\<lparr>customDateFormat := x\<rparr>"
| "apply_change (setMinimalMode x) s = s\<lparr>minimalMode := x\<rparr>"
| "apply_change (setCompactJson x) s = s\<lparr>compactJson := x\<rparr>"
| "apply_change (setUrlMode x) s = s\<lparr>urlMode := x\<rparr>"
| "apply_change (setOrderBy x) s = s\<lparr>orderBy := x\<rparr>"
| "apply_change (setOrderDir x) s = s\<lparr>orderDir := x\<rparr>"
| "apply_change (setLimit x) s = s\<lparr>limit := x\<rparr>"

text \<open>
  The component together with the requests it has sent and not yet heard back from, in
  the order they were sent.
\<close>

record export_component =
  cells :: export_preview
  in_flight :: "export_command list"

text \<open>
  Mounting runs the effect once. After that the component reacts to two kinds of event:
  a changed option, which re-renders and, every option being a dependency of the effect,
  sends a new request (a setter called with the value already held does not re-render);
  and the arrival of the reply to one of the pending requests, in whatever order the
  backend answers.
\<close>

definition export_mount :: "memo list \<Rightarrow> export_component" where
  "export_mount memos =
     \<lparr>cells = initial_export_preview memos,
      in_flight = [export_request memos (initial_export_preview memos)]\<rparr>"

datatype export_event = change setting_change | reply_arrives nat

fun export_step ::
  "format_export \<Rightarrow> memo list \<Rightarrow> export_event \<Rightarrow> export_component \<Rightarrow> export_component" where
  "export_step invoke memos (change c) k =
     (let s' = apply_change c (cells k)
      in if s' = cells k then k
         else k\<lparr>cells := s', in_flight := in_flight k @ [export_request memos s']\<rparr>)"
| "export_step invoke memos (reply_arrives i) k =
     (if i < length (in_flight k)
      then k\<lparr>cells := generatePreview_reply (invoke (in_flight k ! i)) (cells k),
             in_flight := take i (in_flight k) @ drop (Suc i) (in_flight k)\<rparr>
      else k)"

definition export_run ::
  "format_export \<Rightarrow> memo list \<Rightarrow> export_event list \<Rightarrow> export_component" where
  "export_run invoke memos events = fold (export_step invoke memos) events (export_mount memos)"

text \<open>
  \<^verbatim>\<open>handleExport\<close>: the file it writes. \<open>chosen\<close> is the answer of the save dialog (\<open>None\<close>
  when it is dismissed); the text written is the \<^verbatim>\<open>preview\<close> cell as it is when the
  button is clicked.
\<close>

definition handleExport :: "string option \<Rightarrow> export_preview \<Rightarrow> (string \<times> string) option" where
  "handleExport chosen s = (case chosen of Some path \<Rightarrow> Some (path, preview s) | None \<Rightarrow> None)"

text \<open>
  A toy formatter for the examples: the date format string, then the slugs of the slice,
  one per line.
\<close>

definition slug_lines :: format_export where
  "slug_lines c =
     (case c of
        format_memos_json_with_options ms _ f \<Rightarrow> Inr (f @ concat (map (\<lambda>m. slug m @ [CHR 10]) ms))
      | format_memos_markdown_with_options ms _ f _ \<Rightarrow>
          Inr (f @ concat (map (\<lambda>m. slug m @ [CHR 10]) ms))
      | format_memos_table_with_options ms f \<Rightarrow> Inr (f @ concat (map (\<lambda>m. slug m @ [CHR 10]) ms)))"

section \<open>SyncModal\<close>

text \<open>
  \<^verbatim>\<open>SyncProgress\<close>, the payload of a \<^verbatim>\<open>sync-progress\<close> event. \<^verbatim>\<open>total\<close> and
  \<^verbatim>\<open>current\<close> are counters of the backend, integers that a JavaScript number holds
  exactly.
\<close>

record SyncProgress =
  total :: int
  current :: int
  status :: string
  message :: string

text \<open>\<^verbatim>\<open>SyncStatus\<close>; its field \<^verbatim>\<open>status\<close> is \<open>sync_state\<close> here, its \<^verbatim>\<open>id\<close> is \<open>row_id\<close>.\<close>

record SyncStatus =
  row_id :: int
  last_sync_at :: "string option"
  total_memos :: int
  sync_state :: string
  error_message :: "string option"

text \<open>The state of the SyncModal component.\<close>

record sync_modal =
  progress :: "SyncProgress option"
  syncStatus :: "SyncStatus option"
  issyncing :: bool
  isCancelling :: bool

text \<open>
  What a handler does besides changing the state: the backend commands it sends with
  \<^verbatim>\<open>invoke\<close>, and the callback \<^verbatim>\<open>onSyncComplete\<close> of the parent.
\<close>

datatype effect =
  sync_all_memos string
| cancel_sync
| get_sync_status
| onSyncComplete

text \<open>
  \<^verbatim>\<open>startSync\<close> up to and including the \<^verbatim>\<open>invoke\<close>. \<^verbatim>\<open>!token\<close> holds exactly for the
  empty string.
\<close>

definition startSync :: "string \<Rightarrow> sync_modal \<Rightarrow> sync_modal \<times> effect list" where
  "startSync token s =
     (if token = [] \<or> issyncing s then (s, [])
      else (s\<lparr>issyncing := True,
               progress := Some \<lparr>total = 0, current = 0, status = ''starting'',
                                message = ''Starting synchronization...''\<rparr>\<rparr>,
            [sync_all_memos token]))"

text \<open>\<^verbatim>\<open>errorMessage.includes("cancelled")\<close>.\<close>

fun string_includes :: "string \<Rightarrow> string \<Rightarrow> bool" where
  "string_includes [] sub = (sub = [])"
| "string_includes (c # cs) sub = (take (length sub) (c # cs) = sub \<or> string_includes cs sub)"

text \<open>
  The \<^verbatim>\<open>catch\<close> block of \<^verbatim>\<open>startSync\<close>, run when the \<^verbatim>\<open>invoke\<close> is rejected with
  \<open>err\<close>. \<open>captured\<close> is the \<^verbatim>\<open>progress\<close> the closure of \<^verbatim>\<open>startSync\<close> holds (that of the
  render in which it was called); \<^verbatim>\<open>x || 0\<close> is \<open>x\<close> on these integers. The block ends
  with \<^verbatim>\<open>loadSyncStatus()\<close>, which sends \<^verbatim>\<open>get_sync_status\<close>.
\<close>

definition startSync_catch ::
  "string \<Rightarrow> SyncProgress option \<Rightarrow> sync_modal \<Rightarrow> sync_modal \<times> effect list" where
  "startSync_catch err captured s =
     (let errorMessage = err;
          p = (if string_includes errorMessage ''cancelled''
               then \<lparr>total = (case captured of None \<Rightarrow> 0 | Some c \<Rightarrow> total c),
                     current = (case captured of None \<Rightarrow> 0 | Some c \<Rightarrow> current c),
                     status = ''cancelled'', message = ''Sync cancelled by user''\<rparr>
               else \<lparr>total = 0, current = 0, status = ''failed'',
                     message = ''Sync failed: '' @ err\<rparr>)
      in (s\<lparr>progress := Some p, issyncing := False, isCancelling := False\<rparr>, [get_sync_status]))"

text \<open>\<^verbatim>\<open>cancelSync\<close> up to and including the \<^verbatim>\<open>invoke\<close>, and its \<^verbatim>\<open>catch\<close> block.\<close>

definition cancelSync :: "sync_modal \<Rightarrow> sync_modal \<times> effect list" where
  "cancelSync s =
     (if \<not> issyncing s \<or> isCancelling s then (s, [])
      else (s\<lparr>isCancelling := True\<rparr>, [cancel_sync]))"

definition cancelSync_catch :: "sync_modal \<Rightarrow> sync_modal" where
  "cancelSync_catch s = s\<lparr>isCancelling := False\<rparr>"

text \<open>The listener of \<^verbatim>\<open>sync-progress\<close> events, registered while the modal is open.\<close>

definition on_sync_progress :: "SyncProgress \<Rightarrow> sync_modal \<Rightarrow> sync_modal \<times> effect list" where
  "on_sync_progress payload s =
     (if status payload = ''completed'' \<or> status payload = ''cancelled''
      then (s\<lparr>progress := Some payload, issyncing := False, isCancelling := False\<rparr>,
            get_sync_status # (if status payload = ''completed'' then [onSyncComplete] else []))
      else (s\<lparr>progress := Some payload\<rparr>, []))"

text \<open>The modal as it is first rendered.\<close>

definition initial_modal :: sync_modal where
  "initial_modal = \<lparr>progress = None, syncStatus = None, issyncing = False, isCancelling = False\<rparr>"

subsection \<open>The modal in its surroundings\<close>

text \<open>
  The modal is always mounted by the parent; \<^verbatim>\<open>isOpen\<close> is the parent's \<^verbatim>\<open>showSyncModal\<close>.
  While \<^verbatim>\<open>isOpen\<close> is false the component renders nothing and the listener of progress
  events is removed (the cleanup of its effect), but the state cells stay as they are.
  \<open>call_pending\<close> records whether the \<^verbatim>\<open>invoke("sync_all_memos")\<close> of \<^verbatim>\<open>startSync\<close> is still
  awaited, that is, whether a sync started from the modal is running; \<open>captured\<close> is the
  \<^verbatim>\<open>progress\<close> that the pending call of \<^verbatim>\<open>startSync\<close> holds in its closure.
\<close>

record sync_session =
  modal :: sync_modal
  isOpen :: bool
  call_pending :: bool
  captured :: "SyncProgress option"

text \<open>
  What can happen to the modal: the parent opens it; the overlay is clicked (\<^verbatim>\<open>onClose\<close>;
  unlike the close button, the overlay is not disabled during a sync); the start or the
  cancel button is clicked; the backend emits a progress event; the answer to
  \<^verbatim>\<open>get_sync_status\<close> arrives; the pending call returns or is rejected; the cancel
  command is rejected.
\<close>

datatype modal_event =
  open_modal
| click_overlay
| click_start
| click_cancel
| progress_emitted SyncProgress
| status_loaded SyncStatus
| call_resolved
| call_rejected string
| cancel_rejected

fun session_step :: "string \<Rightarrow> modal_event \<Rightarrow> sync_session \<Rightarrow> sync_session \<times> effect list" where
  "session_step token open_modal s =
     (if isOpen s then (s, []) else (s\<lparr>isOpen := True\<rparr>, [get_sync_status]))"
| "session_step token click_overlay s = (s\<lparr>isOpen := False\<rparr>, [])"
| "session_step token click_start s =
     (if \<not> isOpen s then (s, [])
      else (let (m, out) = startSync token (modal s)
            in if out = [] then (s\<lparr>modal := m\<rparr>, out)
               else (s\<lparr>modal := m, call_pending := True, captured := progress (modal s)\<rparr>, out)))"
| "session_step token click_cancel s =
     (if \<not> isOpen s then (s, [])
      else (let (m, out) = cancelSync (modal s) in (s\<lparr>modal := m\<rparr>, out)))"
| "session_step token (progress_emitted payload) s =
     (if \<not> isOpen s then (s, [])
      else (let (m, out) = on_sync_progress payload (modal s) in (s\<lparr>modal := m\<rparr>, out)))"
| "session_step token (status_loaded st) s = (s\<lparr>modal := (modal s)\<lparr>syncStatus := Some st\<rparr>\<rparr>, [])"
| "session_step token call_resolved s = (s\<lparr>call_pending := False\<rparr>, [])"
| "session_step token (call_rejected err) s =
     (if \<not> call_pending s then (s, [])
      else (let (m, out) = startSync_catch err (captured s) (modal s)
            in (s\<lparr>modal := m, call_pending := False\<rparr>, out)))"
| "session_step token cancel_rejected s = (s\<lparr>modal := cancelSync_catch (modal s)\<rparr>, [])"

fun session_run :: "string \<Rightarrow> modal_event list \<Rightarrow> sync_session \<Rightarrow> sync_session \<times> effect list" where
  "session_run token [] s = (s, [])"
| "session_run token (e # es) s =
     (let (s', out) = session_step token e s;
          (s'', out') = session_run token es s'
      in (s'', out @ out'))"

definition initial_session :: sync_session where
  "initial_session =
     \<lparr>modal = initial_modal, isOpen = False, call_pending = False, captured = None\<rparr>"

text \<open>
  A sync that ends while the modal is closed: the modal is opened, a sync is started, the
  overlay is clicked, the backend finishes (its last event finds no listener, the call
  returns), and the modal is opened again.
\<close>

definition completed_event :: SyncProgress where
  "completed_event =
     \<lparr>total = 120, current = 120, status = ''completed'', message = ''Sync completed''\<rparr>"

definition closed_during_sync :: "modal_event list" where
  "closed_during_sync =
     [open_modal, click_start, click_overlay, progress_emitted completed_event, call_resolved,
      open_modal]"

subsection \<open>Numbers: double precision\<close>

text \<open>
  JavaScript's \<^verbatim>\<open>/\<close> and \<^verbatim>\<open>*\<close> return the exact result rounded to the nearest double
  (53 significant bits, ties to the even significand). \<open>fl\<close> is that rounding on the
  rationals, for results in the normal range of doubles (magnitude between \<open>2 powi -1022\<close>
  and \<open>2 powi 1024\<close>), which is where the quotient of two non-zero integers below
  \<open>2 ^ 53\<close> and a hundred times it lie.

  \<open>float_exponent x\<close> is the binary exponent of \<open>x \<noteq> 0\<close>, the \<open>e\<close> with
  \<open>2 powi e \<le> \<bar>x\<bar> < 2 powi (e + 1)\<close>, found from the bit lengths of numerator and
  denominator; doubles with that exponent are the multiples of \<open>2 powi (e - 52)\<close>.
\<close>

definition float_exponent :: "rat \<Rightarrow> int" where
  "float_exponent x =
     (let (p, q) = quotient_of \<bar>x\<bar>; d = bitlen p - bitlen q
      in if 2 powi d \<le> \<bar>x\<bar> then d else d - 1)"

definition round_half_even :: "rat \<Rightarrow> int" where
  "round_half_even z =
     (let f = \<lfloor>z\<rfloor>; r = z - of_int f
      in if r < 1 / 2 then f else if 1 / 2 < r then f + 1 else if even f then f else f + 1)"

definition fl :: "rat \<Rightarrow> rat" where
  "fl x =
     (if x = 0 then 0
      else (let ulp = 2 powi (float_exponent x - 52)
            in of_int (round_half_even (x / ulp)) * ulp))"

text \<open>
  \<^verbatim>\<open>Math.round\<close>: the nearest integer, a tie going up; the language defines it on the
  exact value of its argument.
\<close>

definition math_round :: "rat \<Rightarrow> int" where
  "math_round x = \<lfloor>x + 1 / 2\<rfloor>"

text \<open>\<^verbatim>\<open>getProgressPercentage\<close>.\<close>

definition getProgressPercentage :: "sync_modal \<Rightarrow> int" where
  "getProgressPercentage s =
     (case progress s of
        None \<Rightarrow> 0
      | Some p \<Rightarrow>
          if total p = 0 then 0
          else math_round (fl (fl (of_int (current p) / of_int (total p)) * 100)))"

text \<open>A modal that shows the progress event \<open>current\<close> of \<open>total\<close>.\<close>

definition syncing_modal :: "int \<Rightarrow> int \<Rightarrow> sync_modal" where
  "syncing_modal c t =
     \<lparr>progress = Some \<lparr>total = t, current = c, status = ''syncing'', message = ''Syncing''\<rparr>,
      syncStatus = None, issyncing = True, isCancelling = False\<rparr>"

section \<open>App: the paged queries\<close>

text \<open>
  A page as a \<^verbatim>\<open>queryFn\<close> returns it. The page returned without local data has no
  \<^verbatim>\<open>offset\<close> property (\<open>None\<close>).
\<close>

record page =
  memos :: "memo list"
  has_more :: bool
  offset :: "nat option"

text \<open>
  A \<^verbatim>\<open>queryFn\<close> fails with the error it throws itself, or with the one the backend
  command is rejected with.
\<close>

datatype query_error = No_token_configured | Invoke_rejected string

text \<open>
  The backend command \<^verbatim>\<open>get_memos_from_db\<close> is a parameter of the queries: it receives
  \<^verbatim>\<open>orderBy\<close>, \<^verbatim>\<open>orderDir\<close>, \<^verbatim>\<open>offset\<close> and \<^verbatim>\<open>limit\<close>, and answers with rows or is rejected
  (\<open>Inl\<close>). \<^verbatim>\<open>search_memos_from_db\<close> receives the query string in addition.
\<close>

type_synonym get_memos_command = "OrderBy \<Rightarrow> OrderDir \<Rightarrow> nat \<Rightarrow> nat \<Rightarrow> string + memo list"

type_synonym search_memos_command =
  "string \<Rightarrow> OrderBy \<Rightarrow> OrderDir \<Rightarrow> nat \<Rightarrow> nat \<Rightarrow> string + memo list"

text \<open>
  What both \<^verbatim>\<open>queryFn\<close>s do with the rows they receive: \<^verbatim>\<open>hasMore = memos.length > limit\<close>,
  \<^verbatim>\<open>memos.pop()\<close> when it holds, and the page object.
\<close>

definition page_of_rows :: "nat \<Rightarrow> nat \<Rightarrow> memo list \<Rightarrow> page" where
  "page_of_rows lmt pageParam rows =
     (let hasMore = length rows > lmt;
          rows' = (if hasMore then butlast rows else rows)
      in \<lparr>memos = rows', has_more = hasMore, offset = Some pageParam\<rparr>)"

text \<open>The \<^verbatim>\<open>queryFn\<close> of the memos list.\<close>

definition memos_queryFn ::
  "get_memos_command \<Rightarrow> string \<Rightarrow> bool \<Rightarrow> OrderBy \<Rightarrow> OrderDir \<Rightarrow> nat \<Rightarrow> query_error + page" where
  "memos_queryFn get_memos_from_db token hasLocalData ob od pageParam =
     (if token = [] then Inl No_token_configured
      else if \<not> hasLocalData then Inr \<lparr>memos = [], has_more = False, offset = None\<rparr>
      else (let lmt = 50
            in case get_memos_from_db ob od pageParam (lmt + 1) of
                 Inl err \<Rightarrow> Inl (Invoke_rejected err)
               | Inr rows \<Rightarrow> Inr (page_of_rows lmt pageParam rows)))"

text \<open>The \<^verbatim>\<open>queryFn\<close> of the search.\<close>

definition search_queryFn ::
  "search_memos_command \<Rightarrow> string \<Rightarrow> string \<Rightarrow> bool \<Rightarrow> OrderBy \<Rightarrow> OrderDir \<Rightarrow> nat
     \<Rightarrow> query_error + page" where
  "search_queryFn search_memos_from_db token searchQuery hasLocalData ob od pageParam =
     (if token = [] then Inl No_token_configured
      else if \<not> hasLocalData then Inr \<lparr>memos = [], has_more = False, offset = None\<rparr>
      else (let lmt = 50
            in case search_memos_from_db searchQuery ob od pageParam (lmt + 1) of
                 Inl err \<Rightarrow> Inl (Invoke_rejected err)
               | Inr rows \<Rightarrow> Inr (page_of_rows lmt pageParam rows)))"

text \<open>
  \<^verbatim>\<open>getNextPageParam\<close>. \<open>None\<close> is \<^verbatim>\<open>undefined\<close>: no further page. A page without
  \<^verbatim>\<open>offset\<close> has \<^verbatim>\<open>has_more\<close> false (it is the page returned without local data), so the
  sum is only ever taken of a number.
\<close>

definition getNextPageParam :: "page \<Rightarrow> nat option" where
  "getNextPageParam lastPage =
     (if \<not> has_more lastPage then None
      else (case offset lastPage of Some off \<Rightarrow> Some (off + 50) | None \<Rightarrow> None))"

text \<open>
  The infinite query run to its end: the page for \<open>pageParam\<close>, then, as long as
  \<^verbatim>\<open>getNextPageParam\<close> gives a parameter, the page for it. A rejected page ends the run
  with its error. Whether the run ends depends on the backend, so the result is an option:
  \<open>None\<close> is a run that never ends.
\<close>

partial_function (option) fetch_all_pages ::
  "(nat \<Rightarrow> query_error + page) \<Rightarrow> nat \<Rightarrow> (query_error + page list) option" where
  "fetch_all_pages queryFn pageParam =
     (case queryFn pageParam of
        Inl err \<Rightarrow> Some (Inl err)
      | Inr pg \<Rightarrow>
          (case getNextPageParam pg of
             None \<Rightarrow> Some (Inr [pg])
           | Some next \<Rightarrow>
               Option.bind (fetch_all_pages queryFn next)
                 (\<lambda>r. Some (case r of Inl err \<Rightarrow> Inl err | Inr pgs \<Rightarrow> Inr (pg # pgs)))))"

declare fetch_all_pages.simps [code]

text \<open>\<^verbatim>\<open>getAllMemos\<close> in list mode: the memos of all pages, in page order.\<close>

definition getAllMemos :: "page list \<Rightarrow> memo list" where
  "getAllMemos pages = concat (map memos pages)"

text \<open>\<^verbatim>\<open>checkLocalData\<close>: the value it stores in \<^verbatim>\<open>hasLocalData\<close>.\<close>

definition checkLocalData :: "SyncStatus \<Rightarrow> bool" where
  "checkLocalData st = (total_memos st > 0)"

section \<open>Local store\<close>

text \<open>
  Modelled from the spec: the local store and its commands (\<^verbatim>\<open>db.rs\<close> and \<^verbatim>\<open>lib.rs\<close> of the
  Rust backend, not under src/). The store holds memo rows with unique slugs (section 3);
  here it is the list of its rows.

  \<open>get_page\<close> (section 4.2), the command \<^verbatim>\<open>get_memos_from_db\<close>: "stable deterministic
  ordering by the given field, ties broken by slug to guarantee total order", then the
  rows from \<open>offset\<close> on, at most \<open>limit\<close> of them. The rows are ordered by the pair of
  field and slug; the descending order is the reverse of the ascending one.
\<close>

definition ordered_rows :: "memo list \<Rightarrow> OrderBy \<Rightarrow> OrderDir \<Rightarrow> memo list" where
  "ordered_rows store ob od =
     (let ascending = sort_key (\<lambda>m. (memo_field ob m, slug m)) store
      in if od = asc then ascending else rev ascending)"

definition get_page :: "memo list \<Rightarrow> get_memos_command" where
  "get_page store ob od off lmt = Inr (take lmt (drop off (ordered_rows store ob od)))"

text \<open>
  A backend for the examples that serves a fixed sequence of rows, whatever the order asked
  for: the rows from \<open>off\<close> on, at most \<open>lmt\<close> of them.
\<close>

definition serve_rows :: "memo list \<Rightarrow> get_memos_command" where
  "serve_rows rows ob od off lmt = Inr (take lmt (drop off rows))"






definition store_abc :: "memo list" where
  "store_abc = [memo_a, memo_b, memo_c]"


text \<open>
  A store of 120 memos, the memo number \<open>n\<close> with a slug of \<open>n\<close> letters after a prefix,
  all with one creation time, and its sync status.
\<close>

definition numbered_memo :: "nat \<Rightarrow> memo" where
  "numbered_memo n =
     \<lparr>slug = ''memo-'' @ replicate n (CHR ''i''), content = ''note'',
      created_at = ''2024-02-01 08:00:00'', updated_at = ''2024-02-01 08:00:00'',
      tags = [], url = None\<rparr>"

definition store_120 :: "memo list" where
  "store_120 = map numbered_memo [0..<120]"

definition status_120 :: SyncStatus where
  "status_120 = \<lparr>row_id = 1, last_sync_at = Some ''2024-02-02 00:00:00'', total_memos = 120,
     sync_state = ''completed'', error_message = None\<rparr>"

text \<open>
  Two histories of the export dialog over the memos \<open>a\<close>, \<open>b\<close>, \<open>c\<close>. In both the limit is
  set to 1 while the first request is still unanswered, and both replies arrive; in the
  first they arrive in the order of the requests, in the second the other way round.
\<close>

definition replies_in_order :: "export_event list" where
  "replies_in_order = [change (setLimit (Some (Num 1))), reply_arrives 0, reply_arrives 0]"

definition replies_reversed :: "export_event list" where
  "replies_reversed = [change (setLimit (Some (Num 1))), reply_arrives 1, reply_arrives 0]"

text \<open>
  A third history: the first reply arrives, the limit is set to 1, and the export button
  is clicked before the second reply is there.
\<close>

definition export_before_reply :: "export_event list" where
  "export_before_reply = [reply_arrives 0, change (setLimit (Some (Num 1)))]"

section \<open>Properties of the sort\<close>

lemma compareMemos_le0:
  "compareMemos ob od a b \<le> 0 \<longleftrightarrow> dir_le od (memo_field ob a) (memo_field ob b)"
  by (cases od) (auto simp: compareMemos_def Let_def)

lemma mset_insort_by: "mset (insort_by cmp x ys) = add_mset x (mset ys)"
  by (induction ys) auto

lemma mset_array_sort: "mset (array_sort cmp xs) = mset xs"
  by (induction xs) (auto simp: array_sort_def mset_insort_by)

lemma length_array_sort: "length (array_sort cmp xs) = length xs"
  using mset_array_sort [of cmp xs] by (metis size_mset)

lemma set_insort_by: "set (insort_by cmp x ys) = insert x (set ys)"
  by (induction ys) auto

lemma dir_le_trans: "dir_le od a b \<Longrightarrow> dir_le od b c \<Longrightarrow> dir_le od a c"
  by (cases od) auto

lemma dir_le_total: "\<not> dir_le od a b \<Longrightarrow> dir_le od b a"
  by (cases od) auto

lemma sorted_insort_by:
  assumes "sorted_wrt (\<lambda>a b. dir_le od (memo_field ob a) (memo_field ob b)) ys"
  shows "sorted_wrt (\<lambda>a b. dir_le od (memo_field ob a) (memo_field ob b))
           (insort_by (compareMemos ob od) x ys)"
  using assms
proof (induction ys)
  case Nil
  then show ?case by simp
next
  case (Cons y ys)
  show ?case
  proof (cases "compareMemos ob od x y \<le> 0")
    case True
    then have xy: "dir_le od (memo_field ob x) (memo_field ob y)"
      by (simp add: compareMemos_le0)
    have "\<forall>z\<in>set ys. dir_le od (memo_field ob x) (memo_field ob z)"
      using Cons.prems xy by (auto intro: dir_le_trans)
    with True xy Cons.prems show ?thesis by simp
  next
    case False
    then have yx: "dir_le od (memo_field ob y) (memo_field ob x)"
      by (simp add: compareMemos_le0 dir_le_total)
    with False Cons show ?thesis by (auto simp: set_insort_by)
  qed
qed

lemma sorted_array_sort:
  "sorted_wrt (\<lambda>a b. dir_le od (memo_field ob a) (memo_field ob b))
     (array_sort (compareMemos ob od) ms)"
  by (induction ms) (auto simp: array_sort_def sorted_insort_by)

lemma filter_insort_by:
  "filter (\<lambda>m. memo_field ob m = k) (insort_by (compareMemos ob od) x ys) =
     (if memo_field ob x = k then x # filter (\<lambda>m. memo_field ob m = k) ys
      else filter (\<lambda>m. memo_field ob m = k) ys)"
proof (induction ys)
  case Nil
  then show ?case by simp
next
  case (Cons y ys)
  show ?case
  proof (cases "compareMemos ob od x y \<le> 0")
    case True
    then show ?thesis by simp
  next
    case False
    then have "memo_field ob x \<noteq> memo_field ob y"
      by (cases od) (auto simp: compareMemos_le0)
    with False Cons show ?thesis by auto
  qed
qed

lemma filter_array_sort:
  "filter (\<lambda>m. memo_field ob m = k) (array_sort (compareMemos ob od) ms) =
     filter (\<lambda>m. memo_field ob m = k) ms"
  by (induction ms) (auto simp: array_sort_def filter_insort_by)

section \<open>The export slice: order and limit\<close>

text \<open>
  Claim C2, as the code has it. For every list of memos, order field and direction, the
  order that \<^verbatim>\<open>getProcessedMemos\<close> produces is a stable sort by the chosen field: the
  result holds the same memos as the input, its field values run in the chosen direction,
  and the memos that share a field value \<open>k\<close> stand in the order they had in the input.
  Ties are not broken by slug.
\<close>

theorem sort_is_stable_by_field:
  "mset (array_sort (compareMemos ob od) ms) = mset ms \<and>
   sorted_wrt (\<lambda>a b. dir_le od (memo_field ob a) (memo_field ob b))
     (array_sort (compareMemos ob od) ms) \<and>
   filter (\<lambda>m. memo_field ob m = k) (array_sort (compareMemos ob od) ms) =
     filter (\<lambda>m. memo_field ob m = k) ms"
  by (simp add: mset_array_sort sorted_array_sort filter_array_sort)

text \<open>
  Claim C2 as stated fails: \<open>memo_a\<close> and \<open>memo_b\<close> have the same creation time, and the
  sort by creation time returns them in the order they came in, \<open>b\<close> before \<open>a\<close> or \<open>a\<close>
  before \<open>b\<close>, in either direction. The result depends on the input order, and the slug
  decides nothing.
\<close>

theorem ties_keep_input_order:
  "created_at memo_a = created_at memo_b \<and> slug memo_a < slug memo_b \<and>
   array_sort (compareMemos created_at_key asc) [memo_b, memo_a] = [memo_b, memo_a] \<and>
   array_sort (compareMemos created_at_key asc) [memo_a, memo_b] = [memo_a, memo_b] \<and>
   array_sort (compareMemos created_at_key desc) [memo_b, memo_a] = [memo_b, memo_a] \<and>
   array_sort (compareMemos created_at_key desc) [memo_a, memo_b] = [memo_a, memo_b]"
  by (simp add: array_sort_def compareMemos_def memo_a_def memo_b_def)

text \<open>
  Claim C10. For a numeric limit \<open>n \<ge> 0\<close> the slice handed to the formatter is the prefix
  of the sorted list of length \<open>min n (length ms)\<close>; with the limit field cleared (the state
  \<^verbatim>\<open>""\<close>, which is what the input handler stores for an empty value) it is the whole
  sorted list.
\<close>

theorem getProcessedMemos_limit:
  "(0 \<le> n \<longrightarrow>
      getProcessedMemos ms ob od (Some (Num n)) =
        take (min (nat n) (length ms)) (array_sort (compareMemos ob od) ms) \<and>
      length (getProcessedMemos ms ob od (Some (Num n))) = min (nat n) (length ms)) \<and>
   getProcessedMemos ms ob od None = array_sort (compareMemos ob od) ms \<and>
   getProcessedMemos ms ob od (limit_onChange parseInt []) = array_sort (compareMemos ob od) ms"
  by (auto simp: getProcessedMemos_def array_slice0_def limit_onChange_def Let_def
      length_array_sort min_def nat_le_iff)

theorem getProcessedMemos_limit_witness:
  "(0::int) \<le> 2 \<and>
   getProcessedMemos store_abc created_at_key desc (Some (Num 2)) = [memo_c, memo_a] \<and>
   length (getProcessedMemos store_abc created_at_key desc (Some (Num 2))) = 2"
  using getProcessedMemos_limit [of 2 store_abc created_at_key desc]
  by (simp add: store_abc_def array_sort_def compareMemos_def memo_a_def memo_b_def memo_c_def)

section \<open>Starting and cancelling a sync\<close>

text \<open>
  Claim C3. While a sync is in flight (\<^verbatim>\<open>issyncing\<close> is set), \<^verbatim>\<open>startSync\<close> does nothing:
  it sends no command and leaves the state of the modal, the progress of the running sync
  included, as it is.
\<close>

theorem startSync_while_syncing:
  "issyncing s \<Longrightarrow> startSync token s = (s, [])"
  by (simp add: startSync_def)

theorem startSync_while_syncing_witness:
  "issyncing (fst (startSync ''token'' initial_modal)) \<and>
   snd (startSync ''token'' initial_modal) = [sync_all_memos ''token''] \<and>
   startSync ''token'' (fst (startSync ''token'' initial_modal)) =
     (fst (startSync ''token'' initial_modal), [])"
proof -
  have h: "issyncing (fst (startSync ''token'' initial_modal))"
    by (simp add: startSync_def initial_modal_def)
  show ?thesis
    using h startSync_while_syncing [OF h, of "''token''"]
    by (simp add: startSync_def initial_modal_def)
qed

text \<open>
  Claim C6. With the empty token \<^verbatim>\<open>startSync\<close> sends no command, so no sync is started
  and the store is not touched, and the state of the modal is unchanged.
\<close>

theorem startSync_empty_token:
  "startSync [] s = (s, [])"
  by (simp add: startSync_def)

text \<open>
  What the guard of \<^verbatim>\<open>cancelSync\<close> does: with \<^verbatim>\<open>issyncing\<close> clear nothing happens; with it
  set, the cancellation is signalled (\<^verbatim>\<open>isCancelling\<close>, and the command \<^verbatim>\<open>cancel_sync\<close> unless
  one was sent already) and nothing else changes.
\<close>

lemma cancelSync_guard:
  "(\<not> issyncing s \<longrightarrow> cancelSync s = (s, [])) \<and>
   (issyncing s \<longrightarrow>
      issyncing (fst (cancelSync s)) \<and> isCancelling (fst (cancelSync s)) \<and>
      progress (fst (cancelSync s)) = progress s \<and>
      syncStatus (fst (cancelSync s)) = syncStatus s \<and>
      snd (cancelSync s) = (if isCancelling s then [] else [cancel_sync]))"
  by (simp add: cancelSync_def)

text \<open>
  Claim C4 says that cancelling when no sync is running is a no-op: no cancel request, no
  change of state. The code decides by \<^verbatim>\<open>issyncing\<close>, and that flag is cleared only by a
  final progress event that the listener hears or by the rejection of the call. Here a
  sync is started, the modal is closed by a click on the overlay, the sync completes while
  the modal is closed, and the modal is opened again: the call has returned, no sync is
  running, yet \<^verbatim>\<open>issyncing\<close> is still set, and a click on the cancel button sets
  \<^verbatim>\<open>isCancelling\<close> and sends \<^verbatim>\<open>cancel_sync\<close>.
\<close>

theorem cancel_after_unheard_end:
  "session_run ''token'' closed_during_sync initial_session =
     (\<lparr>modal = \<lparr>progress = Some \<lparr>total = 0, current = 0, status = ''starting'',
                                  message = ''Starting synchronization...''\<rparr>,
                syncStatus = None, issyncing = True, isCancelling = False\<rparr>,
       isOpen = True, call_pending = False, captured = None\<rparr>,
      [get_sync_status, sync_all_memos ''token'', get_sync_status]) \<and>
   session_step ''token'' click_cancel (fst (session_run ''token'' closed_during_sync initial_session)) =
     (\<lparr>modal = \<lparr>progress = Some \<lparr>total = 0, current = 0, status = ''starting'',
                                  message = ''Starting synchronization...''\<rparr>,
                syncStatus = None, issyncing = True, isCancelling = True\<rparr>,
       isOpen = True, call_pending = False, captured = None\<rparr>,
      [cancel_sync])"
  by (simp add: closed_during_sync_def initial_session_def initial_modal_def startSync_def
      cancelSync_def on_sync_progress_def completed_event_def)

section \<open>The export preview\<close>

lemma slice3: "getProcessedMemos store_abc created_at_key desc (Some (Num 3)) = [memo_c, memo_a, memo_b]"
  by (simp add: store_abc_def getProcessedMemos_def array_slice0_def array_sort_def
      compareMemos_def memo_a_def memo_b_def memo_c_def)

lemma slice1: "getProcessedMemos store_abc created_at_key desc (Some (Num 1)) = [memo_c]"
  by (simp add: store_abc_def getProcessedMemos_def array_slice0_def array_sort_def
      compareMemos_def memo_a_def memo_b_def memo_c_def)

text \<open>
  Claim C5 says that the exported text is a function of the memo slice and the
  configuration. In the code the text exported is the \<^verbatim>\<open>preview\<close> cell, which holds the
  reply that arrived last, whichever request it answers. The three histories below end
  with the same memos and the same configuration (limit 1, so the slice is the memo \<open>c\<close>
  alone). With the replies in the order of the requests, the export writes the
  formatter's answer for the slice \<open>c\<close>. With the replies in reverse order, and also when
  the button is clicked before the second reply is there, it writes the answer for the
  superseded slice \<open>c\<close>, \<open>a\<close>, \<open>b\<close>. This holds for every formatter \<open>invoke\<close>.
\<close>

theorem stale_preview_exported:
  "export_request store_abc (cells (export_run invoke store_abc replies_in_order)) =
     format_memos_markdown_with_options [memo_c] url_full ''yyyy-MM-dd HH:mm'' False \<and>
   export_request store_abc (cells (export_run invoke store_abc replies_reversed)) =
     format_memos_markdown_with_options [memo_c] url_full ''yyyy-MM-dd HH:mm'' False \<and>
   export_request store_abc (cells (export_run invoke store_abc export_before_reply)) =
     format_memos_markdown_with_options [memo_c] url_full ''yyyy-MM-dd HH:mm'' False \<and>
   in_flight (export_run invoke store_abc replies_in_order) = [] \<and>
   in_flight (export_run invoke store_abc replies_reversed) = [] \<and>
   handleExport (Some path) (cells (export_run invoke store_abc replies_in_order)) =
     Some (path, reply_text (invoke
       (format_memos_markdown_with_options [memo_c] url_full ''yyyy-MM-dd HH:mm'' False))) \<and>
   handleExport (Some path) (cells (export_run invoke store_abc replies_reversed)) =
     Some (path, reply_text (invoke
       (format_memos_markdown_with_options [memo_c, memo_a, memo_b] url_full
          ''yyyy-MM-dd HH:mm'' False))) \<and>
   handleExport (Some path) (cells (export_run invoke store_abc export_before_reply)) =
     Some (path, reply_text (invoke
       (format_memos_markdown_with_options [memo_c, memo_a, memo_b] url_full
          ''yyyy-MM-dd HH:mm'' False)))"
proof -
  have len: "length store_abc = 3" by (simp add: store_abc_def)
  show ?thesis
    by (simp add: export_run_def replies_in_order_def replies_reversed_def
        export_before_reply_def export_mount_def export_request_def initial_export_preview_def
        getDateFormatString_def generatePreview_reply_def handleExport_def len slice1 slice3)
qed

text \<open>With the toy formatter the two texts differ.\<close>

lemma stale_preview_differs:
  "reply_text (slug_lines (format_memos_markdown_with_options [memo_c] url_full
      ''yyyy-MM-dd HH:mm'' False)) \<noteq>
   reply_text (slug_lines (format_memos_markdown_with_options [memo_c, memo_a, memo_b] url_full
      ''yyyy-MM-dd HH:mm'' False))"
  by (simp add: slug_lines_def reply_text_def)

section \<open>The paged queries\<close>

lemma page_of_rows_props:
  assumes "length rows \<le> Suc n"
  shows "memos (page_of_rows n off rows) = take n rows"
    and "has_more (page_of_rows n off rows) = (n < length rows)"
    and "offset (page_of_rows n off rows) = Some off"
proof -
  have "butlast rows = take n rows" if "n < length rows"
  proof -
    from that assms have "length rows = Suc n" by simp
    then show ?thesis by (simp add: butlast_conv_take)
  qed
  then show "memos (page_of_rows n off rows) = take n rows"
    by (simp add: page_of_rows_def Let_def)
  show "has_more (page_of_rows n off rows) = (n < length rows)"
    by (simp add: page_of_rows_def Let_def)
  show "offset (page_of_rows n off rows) = Some off"
    by (simp add: page_of_rows_def Let_def)
qed

text \<open>
  A page that announces more has an offset, so \<^verbatim>\<open>getNextPageParam\<close> always adds 50 to a
  number.
\<close>

lemma has_more_offset:
  assumes "memos_queryFn get_memos token hasLocalData ob od pageParam = Inr pg"
      and "has_more pg"
  shows "offset pg = Some pageParam" and "getNextPageParam pg = Some (pageParam + 50)"
proof -
  from assms show "offset pg = Some pageParam"
    by (auto simp: memos_queryFn_def page_of_rows_def Let_def split: if_splits sum.splits)
  with assms(2) show "getNextPageParam pg = Some (pageParam + 50)"
    by (simp add: getNextPageParam_def)
qed

text \<open>
  Claim C8. Provided the backend answers a request for 51 rows with at most 51 rows, every
  page of the memos query and of the search query has at most 50 memos; \<^verbatim>\<open>has_more\<close> is
  true exactly if the fetch took place and returned more than 50 rows; and the page holds
  the first 50 rows fetched, so the 51st is never part of a page.
\<close>

theorem query_page_at_most_50:
  assumes "\<And>rows. get_memos ob od pageParam 51 = Inr rows \<Longrightarrow> length rows \<le> 51"
      and "\<And>rows. search_memos q ob od pageParam 51 = Inr rows \<Longrightarrow> length rows \<le> 51"
  shows "(memos_queryFn get_memos token hasLocalData ob od pageParam = Inr pg \<longrightarrow>
            length (memos pg) \<le> 50 \<and>
            (has_more pg \<longleftrightarrow>
               hasLocalData \<and> (\<exists>rows. get_memos ob od pageParam 51 = Inr rows \<and> 50 < length rows)) \<and>
            (\<forall>rows. hasLocalData \<and> get_memos ob od pageParam 51 = Inr rows \<longrightarrow>
               memos pg = take 50 rows)) \<and>
         (search_queryFn search_memos token q hasLocalData ob od pageParam = Inr pg' \<longrightarrow>
            length (memos pg') \<le> 50 \<and>
            (has_more pg' \<longleftrightarrow>
               hasLocalData \<and> (\<exists>rows. search_memos q ob od pageParam 51 = Inr rows \<and> 50 < length rows)) \<and>
            (\<forall>rows. hasLocalData \<and> search_memos q ob od pageParam 51 = Inr rows \<longrightarrow>
               memos pg' = take 50 rows))"
proof (intro conjI impI)
  assume q: "memos_queryFn get_memos token hasLocalData ob od pageParam = Inr pg"
  show "length (memos pg) \<le> 50"
  proof (cases hasLocalData)
    case False
    with q show ?thesis by (auto simp: memos_queryFn_def split: if_splits)
  next
    case True
    with q obtain rows where r: "get_memos ob od pageParam 51 = Inr rows"
      and pg: "pg = page_of_rows 50 pageParam rows"
      by (auto simp: memos_queryFn_def Let_def split: if_splits sum.splits)
    from assms(1) [OF r] have "length rows \<le> Suc 50" by simp
    from page_of_rows_props(1) [OF this] pg show ?thesis by simp
  qed
  show "has_more pg \<longleftrightarrow>
          hasLocalData \<and> (\<exists>rows. get_memos ob od pageParam 51 = Inr rows \<and> 50 < length rows)"
    using q by (auto simp: memos_queryFn_def Let_def page_of_rows_def split: if_splits sum.splits)
  show "\<forall>rows. hasLocalData \<and> get_memos ob od pageParam 51 = Inr rows \<longrightarrow> memos pg = take 50 rows"
  proof (intro allI impI)
    fix rows assume h: "hasLocalData \<and> get_memos ob od pageParam 51 = Inr rows"
    with q have pg: "pg = page_of_rows 50 pageParam rows"
      by (auto simp: memos_queryFn_def Let_def split: if_splits sum.splits)
    from assms(1) h have "length rows \<le> Suc 50" by simp
    from page_of_rows_props(1) [OF this] pg show "memos pg = take 50 rows" by simp
  qed
next
  assume q: "search_queryFn search_memos token q hasLocalData ob od pageParam = Inr pg'"
  show "length (memos pg') \<le> 50"
  proof (cases hasLocalData)
    case False
    with q show ?thesis by (auto simp: search_queryFn_def split: if_splits)
  next
    case True
    with q obtain rows where r: "search_memos q ob od pageParam 51 = Inr rows"
      and pg: "pg' = page_of_rows 50 pageParam rows"
      by (auto simp: search_queryFn_def Let_def split: if_splits sum.splits)
    from assms(2) [OF r] have "length rows \<le> Suc 50" by simp
    from page_of_rows_props(1) [OF this] pg show ?thesis by simp
  qed
  show "has_more pg' \<longleftrightarrow>
          hasLocalData \<and> (\<exists>rows. search_memos q ob od pageParam 51 = Inr rows \<and> 50 < length rows)"
    using q by (auto simp: search_queryFn_def Let_def page_of_rows_def split: if_splits sum.splits)
  show "\<forall>rows. hasLocalData \<and> search_memos q ob od pageParam 51 = Inr rows \<longrightarrow> memos pg' = take 50 rows"
  proof (intro allI impI)
    fix rows assume h: "hasLocalData \<and> search_memos q ob od pageParam 51 = Inr rows"
    with q have pg: "pg' = page_of_rows 50 pageParam rows"
      by (auto simp: search_queryFn_def Let_def split: if_splits sum.splits)
    from assms(2) h have "length rows \<le> Suc 50" by simp
    from page_of_rows_props(1) [OF this] pg show "memos pg' = take 50 rows" by simp
  qed
qed

theorem query_page_at_most_50_witness:
  "memos_queryFn (serve_rows (replicate 60 memo_a)) ''token'' True created_at_key desc 0 =
     Inr \<lparr>memos = replicate 50 memo_a, has_more = True, offset = Some 0\<rparr> \<and>
   search_queryFn (\<lambda>q. serve_rows (replicate 7 memo_b)) ''token'' ''project'' True created_at_key desc 0 =
     Inr \<lparr>memos = replicate 7 memo_b, has_more = False, offset = Some 0\<rparr> \<and>
   length (memos \<lparr>memos = replicate 50 memo_a, has_more = True, offset = Some 0\<rparr>) \<le> 50 \<and>
   length (memos \<lparr>memos = replicate 7 memo_b, has_more = False, offset = Some 0\<rparr>) \<le> 50"
proof -
  have h1: "\<And>rows. serve_rows (replicate 60 memo_a) created_at_key desc 0 51 = Inr rows
              \<Longrightarrow> length rows \<le> 51"
    by (auto simp: serve_rows_def)
  have h2: "\<And>rows. (\<lambda>q. serve_rows (replicate 7 memo_b)) ''project'' created_at_key desc 0 51 = Inr rows
              \<Longrightarrow> length rows \<le> 51"
    by (auto simp: serve_rows_def)
  have q1: "memos_queryFn (serve_rows (replicate 60 memo_a)) ''token'' True created_at_key desc 0 =
     Inr \<lparr>memos = replicate 50 memo_a, has_more = True, offset = Some 0\<rparr>"
    by code_simp
  have q2: "search_queryFn (\<lambda>q. serve_rows (replicate 7 memo_b)) ''token'' ''project'' True created_at_key desc 0 =
     Inr \<lparr>memos = replicate 7 memo_b, has_more = False, offset = Some 0\<rparr>"
    by code_simp
  show ?thesis
    using q1 q2 query_page_at_most_50 [OF h1 h2, where token = "''token''" and hasLocalData = True
        and pg = "\<lparr>memos = replicate 50 memo_a, has_more = True, offset = Some 0\<rparr>"
        and pg' = "\<lparr>memos = replicate 7 memo_b, has_more = False, offset = Some 0\<rparr>"]
    by simp
qed

text \<open>
  The run of the memos query over a backend that serves a fixed sequence of rows ends, and
  its pages, put together, are the rows from the first offset on.
\<close>

lemma fetch_all_serve_rows:
  assumes "token \<noteq> []"
  shows "\<exists>pgs. fetch_all_pages (memos_queryFn (serve_rows rows) token True ob od) off = Some (Inr pgs)
           \<and> getAllMemos pgs = drop off rows \<and> (\<forall>pg\<in>set pgs. length (memos pg) \<le> 50)"
proof (induction "length rows - off" arbitrary: off rule: less_induct)
  case less
  let ?q = "memos_queryFn (serve_rows rows) token True ob od"
  let ?fetched = "take 51 (drop off rows)"
  have len: "length ?fetched \<le> Suc 50" by simp
  have q: "?q off = Inr (page_of_rows 50 off ?fetched)"
    using assms by (simp add: memos_queryFn_def serve_rows_def)
  note pp = page_of_rows_props [OF len, of off]
  have mem: "memos (page_of_rows 50 off ?fetched) = take 50 (drop off rows)"
    using pp(1) by (simp add: min_def)
  show ?case
  proof (cases "50 < length (drop off rows)")
    case True
    then have hm: "has_more (page_of_rows 50 off ?fetched)" using pp(2) by simp
    then have nxt: "getNextPageParam (page_of_rows 50 off ?fetched) = Some (off + 50)"
      using pp(3) by (simp add: getNextPageParam_def)
    from True have "length rows - (off + 50) < length rows - off" by simp
    from less [OF this] obtain pgs where
      rec: "fetch_all_pages ?q (off + 50) = Some (Inr pgs)"
      and all: "getAllMemos pgs = drop (off + 50) rows"
      and sz: "\<forall>pg\<in>set pgs. length (memos pg) \<le> 50" by blast
    have "fetch_all_pages ?q off = Some (Inr (page_of_rows 50 off ?fetched # pgs))"
      by (subst fetch_all_pages.simps) (simp add: q nxt rec)
    moreover have "getAllMemos (page_of_rows 50 off ?fetched # pgs) = drop off rows"
    proof -
      have "take 50 (drop off rows) @ drop (off + 50) rows =
              take 50 (drop off rows) @ drop 50 (drop off rows)"
        by (simp add: add.commute)
      also have "\<dots> = drop off rows"
        by (rule append_take_drop_id)
      finally show ?thesis
        using all mem by (simp add: getAllMemos_def)
    qed
    moreover have "\<forall>pg\<in>set (page_of_rows 50 off ?fetched # pgs). length (memos pg) \<le> 50"
      using sz mem by simp
    ultimately show ?thesis by blast
  next
    case False
    then have hm: "\<not> has_more (page_of_rows 50 off ?fetched)" using pp(2) by simp
    then have nxt: "getNextPageParam (page_of_rows 50 off ?fetched) = None"
      by (simp add: getNextPageParam_def)
    have "fetch_all_pages ?q off = Some (Inr [page_of_rows 50 off ?fetched])"
      by (subst fetch_all_pages.simps) (simp add: q nxt)
    moreover have "getAllMemos [page_of_rows 50 off ?fetched] = drop off rows"
      using False mem by (simp add: getAllMemos_def)
    moreover have "\<forall>pg\<in>set [page_of_rows 50 off ?fetched]. length (memos pg) \<le> 50"
      using mem by simp
    ultimately show ?thesis by blast
  qed
qed

lemma mset_ordered_rows: "mset (ordered_rows store ob od) = mset store"
  by (simp add: ordered_rows_def Let_def)

lemma get_page_serve_rows:
  "memos_queryFn (get_page store) token h ob od =
   memos_queryFn (serve_rows (ordered_rows store ob od)) token h ob od"
  by (rule ext) (simp add: memos_queryFn_def get_page_def serve_rows_def)

text \<open>
  Claim C1. Let the store hold \<open>total_memos\<close> rows with distinct slugs, let a token be set,
  and let \<^verbatim>\<open>hasLocalData\<close> be what \<^verbatim>\<open>checkLocalData\<close> computes from the sync status. For a
  fixed order field and direction, the memos query run from offset 0 (each next offset 50
  further, until \<^verbatim>\<open>has_more\<close> is false) ends, and its pages together hold exactly the rows
  of the store: \<open>total_memos\<close> memos, no slug twice, no slug missing.
\<close>

theorem pagination_exhaustive:
  assumes "token \<noteq> []"
      and "distinct (map slug store)"
      and "total_memos st = int (length store)"
      and "hasLocalData = checkLocalData st"
  shows "\<exists>pgs. fetch_all_pages (memos_queryFn (get_page store) token hasLocalData ob od) 0
                 = Some (Inr pgs) \<and>
           distinct (map slug (getAllMemos pgs)) \<and>
           set (map slug (getAllMemos pgs)) = set (map slug store) \<and>
           int (length (getAllMemos pgs)) = total_memos st \<and>
           mset (getAllMemos pgs) = mset store"
proof -
  let ?q = "memos_queryFn (get_page store) token hasLocalData ob od"
  have "\<exists>pgs. fetch_all_pages ?q 0 = Some (Inr pgs) \<and> mset (getAllMemos pgs) = mset store"
  proof (cases hasLocalData)
    case True
    from fetch_all_serve_rows [OF assms(1), of "ordered_rows store ob od" ob od 0]
    obtain pgs where
      "fetch_all_pages (memos_queryFn (serve_rows (ordered_rows store ob od)) token True ob od) 0
         = Some (Inr pgs)"
      and "getAllMemos pgs = drop 0 (ordered_rows store ob od)" by blast
    with True show ?thesis
      by (auto simp: get_page_serve_rows mset_ordered_rows)
  next
    case False
    with assms(3,4) have empty: "store = []" by (simp add: checkLocalData_def)
    have q0: "?q 0 = Inr \<lparr>memos = [], has_more = False, offset = None\<rparr>"
      using False assms(1) by (simp add: memos_queryFn_def)
    have "fetch_all_pages ?q 0 = Some (Inr [\<lparr>memos = [], has_more = False, offset = None\<rparr>])"
      by (subst fetch_all_pages.simps) (simp add: q0 getNextPageParam_def)
    with empty show ?thesis by (simp add: getAllMemos_def)
  qed
  then obtain pgs where run: "fetch_all_pages ?q 0 = Some (Inr pgs)"
    and ms: "mset (getAllMemos pgs) = mset store" by blast
  from ms have slugs: "mset (map slug (getAllMemos pgs)) = mset (map slug store)"
    by (metis mset_map)
  from slugs assms(2) have "distinct (map slug (getAllMemos pgs))"
    by (metis mset_eq_imp_distinct_iff)
  moreover from slugs have "set (map slug (getAllMemos pgs)) = set (map slug store)"
    by (metis set_mset_mset)
  moreover from ms assms(3) have "int (length (getAllMemos pgs)) = total_memos st"
    by (metis size_mset)
  ultimately show ?thesis using run ms by blast
qed

text \<open>
  The run over 120 rows takes the step to the next offset twice: pages at the offsets 0,
  50 and 100.
\<close>

lemma fetch_next_page:
  assumes "token \<noteq> []" and "50 < length (drop off rows)"
  shows "fetch_all_pages (memos_queryFn (serve_rows rows) token True ob od) off =
           Option.bind (fetch_all_pages (memos_queryFn (serve_rows rows) token True ob od) (off + 50))
             (\<lambda>r. Some (case r of Inl err \<Rightarrow> Inl err
                   | Inr pgs \<Rightarrow> Inr (\<lparr>memos = take 50 (drop off rows), has_more = True,
                                       offset = Some off\<rparr> # pgs)))"
proof -
  let ?fetched = "take 51 (drop off rows)"
  have len: "length ?fetched \<le> Suc 50" by simp
  have q: "memos_queryFn (serve_rows rows) token True ob od off = Inr (page_of_rows 50 off ?fetched)"
    using assms(1) by (simp add: memos_queryFn_def serve_rows_def)
  note pp = page_of_rows_props [OF len, of off]
  have pg: "page_of_rows 50 off ?fetched =
              \<lparr>memos = take 50 (drop off rows), has_more = True, offset = Some off\<rparr>"
    using pp assms(2) by (simp add: min_def)
  show ?thesis
    by (subst fetch_all_pages.simps) (simp add: q pg getNextPageParam_def)
qed

lemma fetch_last_page:
  assumes "token \<noteq> []" and "length (drop off rows) \<le> 50"
  shows "fetch_all_pages (memos_queryFn (serve_rows rows) token True ob od) off =
           Some (Inr [\<lparr>memos = drop off rows, has_more = False, offset = Some off\<rparr>])"
proof -
  let ?fetched = "take 51 (drop off rows)"
  have len: "length ?fetched \<le> Suc 50" by simp
  have q: "memos_queryFn (serve_rows rows) token True ob od off = Inr (page_of_rows 50 off ?fetched)"
    using assms(1) by (simp add: memos_queryFn_def serve_rows_def)
  note pp = page_of_rows_props [OF len, of off]
  have pg: "page_of_rows 50 off ?fetched =
              \<lparr>memos = drop off rows, has_more = False, offset = Some off\<rparr>"
    using pp assms(2) by (simp add: min_def)
  show ?thesis
    by (subst fetch_all_pages.simps) (simp add: q pg getNextPageParam_def)
qed

lemma distinct_store_120: "distinct (map slug store_120)"
proof -
  have "inj (\<lambda>n. ''memo-'' @ replicate n (CHR ''i''))"
  proof (rule injI)
    fix n m :: nat
    assume "''memo-'' @ replicate n (CHR ''i'') = ''memo-'' @ replicate m (CHR ''i'')"
    then have "length (replicate n (CHR ''i'')) = length (replicate m (CHR ''i''))" by simp
    then show "n = m" by simp
  qed
  then have "distinct (map (\<lambda>n. ''memo-'' @ replicate n (CHR ''i'')) [0..<120])"
    by (simp add: distinct_map inj_on_def)
  moreover have "map slug store_120 = map (\<lambda>n. ''memo-'' @ replicate n (CHR ''i'')) [0..<120]"
    by (simp add: store_120_def numbered_memo_def)
  ultimately show ?thesis by simp
qed

theorem pagination_exhaustive_witness:
  "''token'' \<noteq> [] \<and> distinct (map slug store_120) \<and>
   total_memos status_120 = int (length store_120) \<and> checkLocalData status_120 \<and>
   fetch_all_pages
     (memos_queryFn (get_page store_120) ''token'' (checkLocalData status_120) created_at_key desc) 0 =
     Some (Inr
       [\<lparr>memos = take 50 (ordered_rows store_120 created_at_key desc), has_more = True,
          offset = Some 0\<rparr>,
        \<lparr>memos = take 50 (drop 50 (ordered_rows store_120 created_at_key desc)), has_more = True,
          offset = Some 50\<rparr>,
        \<lparr>memos = drop 100 (ordered_rows store_120 created_at_key desc), has_more = False,
          offset = Some 100\<rparr>]) \<and>
   length (take 50 (ordered_rows store_120 created_at_key desc)) = 50 \<and>
   length (take 50 (drop 50 (ordered_rows store_120 created_at_key desc))) = 50 \<and>
   length (drop 100 (ordered_rows store_120 created_at_key desc)) = 20 \<and>
   (\<exists>pgs. fetch_all_pages
             (memos_queryFn (get_page store_120) ''token'' (checkLocalData status_120)
                created_at_key desc) 0 = Some (Inr pgs) \<and>
           distinct (map slug (getAllMemos pgs)) \<and>
           set (map slug (getAllMemos pgs)) = set (map slug store_120) \<and>
           int (length (getAllMemos pgs)) = total_memos status_120 \<and>
           mset (getAllMemos pgs) = mset store_120)"
proof -
  let ?rows = "ordered_rows store_120 created_at_key desc"
  have h1: "''token'' \<noteq> []" by simp
  have h2: "distinct (map slug store_120)" by (rule distinct_store_120)
  have len: "length store_120 = 120" by (simp add: store_120_def)
  have h3: "total_memos status_120 = int (length store_120)"
    by (simp add: len status_120_def)
  have h4: "checkLocalData status_120"
    by (simp add: checkLocalData_def status_120_def)
  have rows: "length ?rows = 120"
    using mset_ordered_rows [of store_120 created_at_key desc] len by (metis size_mset)
  have p3: "fetch_all_pages (memos_queryFn (serve_rows ?rows) ''token'' True created_at_key desc) 100 =
              Some (Inr [\<lparr>memos = drop 100 ?rows, has_more = False, offset = Some 100\<rparr>])"
    by (rule fetch_last_page) (simp_all add: rows)
  have p2: "fetch_all_pages (memos_queryFn (serve_rows ?rows) ''token'' True created_at_key desc) 50 =
              Some (Inr [\<lparr>memos = take 50 (drop 50 ?rows), has_more = True, offset = Some 50\<rparr>,
                         \<lparr>memos = drop 100 ?rows, has_more = False, offset = Some 100\<rparr>])"
    using fetch_next_page [of "''token''" 50 ?rows created_at_key desc] p3 by (simp add: rows)
  have p1: "fetch_all_pages (memos_queryFn (serve_rows ?rows) ''token'' True created_at_key desc) 0 =
              Some (Inr [\<lparr>memos = take 50 ?rows, has_more = True, offset = Some 0\<rparr>,
                         \<lparr>memos = take 50 (drop 50 ?rows), has_more = True, offset = Some 50\<rparr>,
                         \<lparr>memos = drop 100 ?rows, has_more = False, offset = Some 100\<rparr>])"
    using fetch_next_page [of "''token''" 0 ?rows created_at_key desc] p2 by (simp add: rows)
  have h5: "fetch_all_pages
     (memos_queryFn (get_page store_120) ''token'' (checkLocalData status_120) created_at_key desc) 0 =
     Some (Inr [\<lparr>memos = take 50 ?rows, has_more = True, offset = Some 0\<rparr>,
                \<lparr>memos = take 50 (drop 50 ?rows), has_more = True, offset = Some 50\<rparr>,
                \<lparr>memos = drop 100 ?rows, has_more = False, offset = Some 100\<rparr>])"
    using p1 h4 by (simp add: get_page_serve_rows)
  show ?thesis
    using h1 h2 h3 h4 h5 rows pagination_exhaustive [OF h1 h2 h3 refl, of created_at_key desc]
    by simp
qed

section \<open>The progress percentage\<close>

text \<open>
  The exponent found from the bit lengths is the binary exponent, and rounding to a double
  changes a number by at most one part in \<open>2 ^ 53\<close>.
\<close>

lemma bitlen_powi_bounds:
  assumes "0 < p"
  shows "(2::rat) powi (bitlen p - 1) \<le> of_int p" and "of_int p < (2::rat) powi (bitlen p)"
proof -
  from bitlen_bounds [OF assms] have lo: "2 ^ nat (bitlen p - 1) \<le> p" and hi: "p < 2 ^ nat (bitlen p)"
    by simp_all
  from assms have b1: "1 \<le> bitlen p" by (auto simp: bitlen_alt_def)
  have "(2::rat) powi (bitlen p - 1) = of_int (2 ^ nat (bitlen p - 1))"
    using b1 by (simp add: power_int_def)
  also have "\<dots> \<le> of_int p" using lo by (simp only: of_int_le_iff)
  finally show "(2::rat) powi (bitlen p - 1) \<le> of_int p" .
  have "(of_int p :: rat) < of_int (2 ^ nat (bitlen p))" using hi by (simp only: of_int_less_iff)
  also have "\<dots> = 2 powi (bitlen p)" using b1 by (simp add: power_int_def)
  finally show "of_int p < (2::rat) powi (bitlen p)" .
qed

lemma float_exponent_bounds:
  assumes "x \<noteq> 0"
  shows "2 powi (float_exponent x) \<le> \<bar>x\<bar>" and "\<bar>x\<bar> < 2 powi (float_exponent x + 1)"
proof -
  obtain p q where pq: "quotient_of \<bar>x\<bar> = (p, q)" by (cases "quotient_of \<bar>x\<bar>")
  then have q: "0 < q" by (rule quotient_of_denom_pos)
  from pq have x: "\<bar>x\<bar> = of_int p / of_int q" by (rule quotient_of_div)
  from assms have "0 < \<bar>x\<bar>" by simp
  with x q have p: "0 < p" by (simp add: zero_less_divide_iff)
  let ?d = "bitlen p - bitlen q"
  note bp = bitlen_powi_bounds [OF p] and bq = bitlen_powi_bounds [OF q]
  have qpos: "(0::rat) < of_int q" using q by simp
  have lo: "(2::rat) powi (?d - 1) \<le> \<bar>x\<bar>"
  proof -
    have "(2::rat) powi (?d - 1) = 2 powi (bitlen p - 1) / 2 powi (bitlen q)"
      using power_int_diff [of "2::rat" "bitlen p - 1" "bitlen q"] by (simp add: algebra_simps)
    also have "\<dots> \<le> of_int p / of_int q"
      using bp(1) bq(2) qpos p by (intro frac_le) auto
    finally show ?thesis using x by simp
  qed
  have hi: "\<bar>x\<bar> < (2::rat) powi (?d + 1)"
  proof -
    have "of_int p / of_int q < (2::rat) powi (bitlen p) / 2 powi (bitlen q - 1)"
      using bp(2) bq(1) p by (intro frac_less) auto
    also have "\<dots> = 2 powi (?d + 1)"
      using power_int_diff [of "2::rat" "bitlen p" "bitlen q - 1"] by (simp add: algebra_simps)
    finally show ?thesis using x by simp
  qed
  have e: "float_exponent x = (if 2 powi ?d \<le> \<bar>x\<bar> then ?d else ?d - 1)"
    by (simp add: float_exponent_def pq Let_def)
  show "2 powi (float_exponent x) \<le> \<bar>x\<bar>"
    using lo by (simp add: e)
  show "\<bar>x\<bar> < 2 powi (float_exponent x + 1)"
    using hi by (auto simp: e not_le)
qed

lemma round_half_even_error: "\<bar>of_int (round_half_even z) - z\<bar> \<le> 1 / 2"
proof -
  have "of_int \<lfloor>z\<rfloor> \<le> z" "z < of_int \<lfloor>z\<rfloor> + 1" by linarith+
  then show ?thesis
    by (auto simp: round_half_even_def Let_def abs_le_iff)
qed

lemma fl_error: "\<bar>fl x - x\<bar> \<le> \<bar>x\<bar> / 2 ^ 53"
proof (cases "x = 0")
  case True
  then show ?thesis by (simp add: fl_def)
next
  case False
  define u :: rat where "u = 2 powi (float_exponent x - 52)"
  have upos: "0 < u" by (simp add: u_def)
  have u52: "u = 2 powi (float_exponent x) / 2 ^ 52"
    using power_int_diff [of "2::rat" "float_exponent x" 52] by (simp add: u_def)
  have ule: "u \<le> \<bar>x\<bar> / 2 ^ 52"
    using float_exponent_bounds(1) [OF False] by (simp add: u52 divide_right_mono)
  have "fl x - x = (of_int (round_half_even (x / u)) - x / u) * u"
    using False upos by (simp add: fl_def u_def Let_def algebra_simps)
  then have "\<bar>fl x - x\<bar> = \<bar>of_int (round_half_even (x / u)) - x / u\<bar> * u"
    using upos by (simp add: abs_mult)
  also have "\<dots> \<le> (1 / 2) * u"
    using round_half_even_error [of "x / u"] upos by (intro mult_right_mono) auto
  also have "\<dots> \<le> (1 / 2) * (\<bar>x\<bar> / 2 ^ 52)"
    using ule by simp
  also have "\<dots> = \<bar>x\<bar> / 2 ^ 53" by simp
  finally show ?thesis .
qed

lemma percentage_error:
  assumes "0 \<le> c" "c \<le> t" "0 < t"
  shows "\<bar>fl (fl (of_int c / of_int t) * 100) - 100 * of_int c / of_int t\<bar> < 1 / 2"
proof -
  define x :: rat where "x = of_int c / of_int t"
  define y0 :: rat where "y0 = fl x * 100"
  have x0: "0 \<le> x" using assms by (simp add: x_def)
  have x1: "x \<le> 1" using assms by (simp add: x_def)
  have "\<bar>fl x - x\<bar> \<le> \<bar>x\<bar> / 2 ^ 53" by (rule fl_error)
  also have "\<dots> \<le> 1 / 2 ^ 53" using x0 x1 by (simp add: divide_right_mono)
  finally have e1: "\<bar>fl x - x\<bar> \<le> 1 / 2 ^ 53" .
  have "y0 - 100 * x = 100 * (fl x - x)" by (simp add: y0_def algebra_simps)
  then have "\<bar>y0 - 100 * x\<bar> = \<bar>100 * (fl x - x)\<bar>" by (rule arg_cong)
  also have "\<dots> = 100 * \<bar>fl x - x\<bar>" by (simp only: abs_mult abs_numeral)
  finally have "\<bar>y0 - 100 * x\<bar> = 100 * \<bar>fl x - x\<bar>" .
  with e1 have e2: "\<bar>y0 - 100 * x\<bar> \<le> 100 / 2 ^ 53" by simp
  have "\<bar>y0\<bar> \<le> \<bar>y0 - 100 * x\<bar> + \<bar>100 * x\<bar>" by simp
  also have "\<dots> \<le> 100 / 2 ^ 53 + 100" using e2 x0 x1 by simp
  also have "\<dots> \<le> 101" by simp
  finally have y0b: "\<bar>y0\<bar> \<le> 101" .
  have "\<bar>fl y0 - y0\<bar> \<le> \<bar>y0\<bar> / 2 ^ 53" by (rule fl_error)
  also have "\<dots> \<le> 101 / 2 ^ 53" using y0b by (simp add: divide_right_mono)
  finally have e3: "\<bar>fl y0 - y0\<bar> \<le> 101 / 2 ^ 53" .
  have "\<bar>fl y0 - 100 * x\<bar> \<le> \<bar>fl y0 - y0\<bar> + \<bar>y0 - 100 * x\<bar>" by simp
  also have "\<dots> \<le> 101 / 2 ^ 53 + 100 / 2 ^ 53" using e2 e3 by simp
  also have "\<dots> < 1 / 2" by simp
  finally show ?thesis by (simp add: y0_def x_def)
qed

lemma math_round_between:
  assumes "\<bar>y - v\<bar> < 1 / 2"
  shows "\<lfloor>v\<rfloor> \<le> math_round y" and "math_round y \<le> \<lceil>v\<rceil>"
proof -
  from assms have lo: "v \<le> y + 1 / 2" and hi: "y + 1 / 2 < v + 1" by linarith+
  from lo show "\<lfloor>v\<rfloor> \<le> math_round y" by (simp add: math_round_def floor_mono)
  have "v \<le> of_int \<lceil>v\<rceil>" by (rule le_of_int_ceiling)
  with hi have "y + 1 / 2 < of_int \<lceil>v\<rceil> + 1" by linarith
  then have "y + 1 / 2 < of_int (\<lceil>v\<rceil> + 1)" by simp
  then have "\<lfloor>y + 1 / 2\<rfloor> < \<lceil>v\<rceil> + 1" by (simp only: floor_less_iff)
  then show "math_round y \<le> \<lceil>v\<rceil>" by (simp add: math_round_def)
qed

text \<open>
  Claim C9, as the code has it. The percentage is 0 when there is no progress or when
  \<open>total\<close> is 0, so nothing is divided by zero. For \<open>0 \<le> current \<le> total\<close> and
  \<open>total \<noteq> 0\<close> it is \<^verbatim>\<open>Math.round\<close> of the double \<^verbatim>\<open>(current / total) * 100\<close>; this is
  the exact percentage \<open>100 * current / total\<close> rounded down or rounded up to an integer
  (the percentage itself when that is an integer), and so lies between 0 and 100.
\<close>

theorem getProgressPercentage_range:
  "(progress s = None \<longrightarrow> getProgressPercentage s = 0) \<and>
   (progress s = Some p \<and> total p = 0 \<longrightarrow> getProgressPercentage s = 0) \<and>
   (progress s = Some p \<and> 0 \<le> current p \<and> current p \<le> total p \<and> total p \<noteq> 0 \<longrightarrow>
      getProgressPercentage s =
        math_round (fl (fl (of_int (current p) / of_int (total p)) * 100)) \<and>
      \<lfloor>100 * of_int (current p) / of_int (total p) :: rat\<rfloor> \<le> getProgressPercentage s \<and>
      getProgressPercentage s \<le> \<lceil>100 * of_int (current p) / of_int (total p) :: rat\<rceil> \<and>
      0 \<le> getProgressPercentage s \<and> getProgressPercentage s \<le> 100)"
proof (intro conjI impI)
  show "getProgressPercentage s = 0" if "progress s = None"
    using that by (simp add: getProgressPercentage_def)
  show "getProgressPercentage s = 0" if "progress s = Some p \<and> total p = 0"
    using that by (simp add: getProgressPercentage_def)
next
  assume h: "progress s = Some p \<and> 0 \<le> current p \<and> current p \<le> total p \<and> total p \<noteq> 0"
  let ?c = "current p" and ?t = "total p"
  let ?v = "100 * of_int ?c / of_int ?t :: rat"
  from h have c0: "0 \<le> ?c" and ct: "?c \<le> ?t" and t0: "0 < ?t" by auto
  from h show val: "getProgressPercentage s = math_round (fl (fl (of_int ?c / of_int ?t) * 100))"
    by (simp add: getProgressPercentage_def)
  note btw = math_round_between [OF percentage_error [OF c0 ct t0]]
  from btw(1) val show lo: "\<lfloor>?v\<rfloor> \<le> getProgressPercentage s" by simp
  from btw(2) val show hi: "getProgressPercentage s \<le> \<lceil>?v\<rceil>" by simp
  have v0: "0 \<le> ?v" using c0 t0 by simp
  have "of_int ?c \<le> (of_int ?t :: rat)" using ct by simp
  then have v100: "?v \<le> 100" using t0 by (simp add: divide_le_eq)
  from v0 have "0 \<le> \<lfloor>?v\<rfloor>" by simp
  then show "0 \<le> getProgressPercentage s" using lo by (rule order_trans)
  from v100 have "\<lceil>?v\<rceil> \<le> 100" by (simp add: ceiling_le_iff)
  with hi show "getProgressPercentage s \<le> 100" by (rule order_trans)
qed

theorem getProgressPercentage_range_witness:
  "getProgressPercentage initial_modal = 0 \<and>
   getProgressPercentage (syncing_modal 50 0) = 0 \<and>
   (0::int) \<le> 50 \<and> (50::int) \<le> 120 \<and> (120::int) \<noteq> 0 \<and>
   getProgressPercentage (syncing_modal 50 120) = 42 \<and>
   \<lfloor>100 * 50 / 120 :: rat\<rfloor> \<le> getProgressPercentage (syncing_modal 50 120) \<and>
   getProgressPercentage (syncing_modal 50 120) \<le> \<lceil>100 * 50 / 120 :: rat\<rceil>"
proof -
  have v: "getProgressPercentage (syncing_modal 50 120) = 42" by code_simp
  show ?thesis
    using v
      getProgressPercentage_range [of initial_modal
        "\<lparr>total = 0, current = 0, status = ''starting'', message = ''Starting''\<rparr>"]
      getProgressPercentage_range [of "syncing_modal 50 0"
        "\<lparr>total = 0, current = 50, status = ''syncing'', message = ''Syncing''\<rparr>"]
      getProgressPercentage_range [of "syncing_modal 50 120"
        "\<lparr>total = 120, current = 50, status = ''syncing'', message = ''Syncing''\<rparr>"]
    by (simp add: initial_modal_def syncing_modal_def)
qed

text \<open>
  Claim C9 as stated fails: for 23 of 40 the exact percentage is 57.5, which rounds to 58,
  but the double \<^verbatim>\<open>(23 / 40) * 100\<close> is just below 57.5 and the code shows 57.
\<close>

theorem percentage_tie_rounds_down:
  "(0::int) \<le> 23 \<and> (23::int) \<le> 40 \<and>
   getProgressPercentage (syncing_modal 23 40) = 57 \<and>
   round (100 * 23 / 40 :: rat) = 58"
proof -
  have "getProgressPercentage (syncing_modal 23 40) = 57" by code_simp
  moreover have "round (100 * 23 / 40 :: rat) = 58" by (simp add: round_def)
  ultimately show ?thesis by simp
qed

section \<open>The local store: last write wins\<close>









end
